theory Spec2Isabelle
  imports Main "HOL-Library.Word" "HOL-Library.Sublist"
begin

unbundle bit_operations_syntax

section \<open>Errors, calls and the process state\<close>

text \<open>
  \<^verbatim>\<open>syscall.Errno\<close> is an unsigned integer.  The two values the unmount loop
  tests for are those of Linux; so are \<^verbatim>\<open>MNT_DETACH\<close> and the bit index of
  \<^verbatim>\<open>CAP_SYS_ADMIN\<close> (\<^verbatim>\<open>capabilities.Map["CAP_SYS_ADMIN"].Value\<close>).
\<close>

type_synonym errno = nat

definition EINVAL :: errno where "EINVAL = 22"
definition EBUSY :: errno where "EBUSY = 16"
definition EPERM :: errno where "EPERM = 1"
definition MNT_DETACH :: int where "MNT_DETACH = 2"
definition CAP_SYS_ADMIN :: nat where "CAP_SYS_ADMIN = 21"

text \<open>
  Go \<^verbatim>\<open>error\<close> values.  \<open>External\<close> is an error handed back by a collaborator
  outside these files, named by its message.  The \<^verbatim>\<open>fmt.Errorf\<close> calls of
  \<^verbatim>\<open>cleanup_linux.go\<close> and \<^verbatim>\<open>oci_overlay.go\<close> are kept structurally, one
  constructor for each format string, with its arguments.  The last two are the
  validation failures of the overlay set.
\<close>

datatype error =
    Errno errno
  | External string
  | WhileUnmounting string error
  | UnableToDeleteCryptDevice string
  | ConfigNotInitialized
  | MoreThanOneWritable string string
  | DuplicateOverlaySource string
  | MultipleWritableOverlays

datatype loglevel = ErrorLvl | WarningLvl

text \<open>
  Every effect of the modelled code on the outside world is one \<open>call\<close>; the
  process state records them in order, oldest first.  \<open>Sylog\<close> keeps the error and
  warning messages (format string, the string arguments and the error printed);
  debug, verbose and info messages are not recorded.
\<close>

datatype call =
    LockOSThread
  | UnlockOSThread
  | CapSet "64 word"
  | Unmount string int
  | StopFuseDrivers
  | RemoveAll string
  | FindBin string
  | StarterRun string string "string list" bool
  | Escalate
  | Drop
  | DelNetworks
  | CgroupDestroy
  | CloseCryptDevice string
  | InstanceGet string
  | InstanceDelete string
  | Sylog loglevel string "string list" error

record world =
  effective :: "64 word"
  trace :: "call list"

text \<open>
  The environment answers every call.  An answer may depend on everything that
  happened before (the trace at the moment of the call) and on the call's
  arguments, so that any pattern of failures is some environment.
\<close>

record env =
  Getuid :: nat
  Geteuid :: nat
  unmount_errno :: "call list \<Rightarrow> string \<Rightarrow> int \<Rightarrow> errno option"
  capset_error :: "call list \<Rightarrow> 64 word \<Rightarrow> error option"
  findbin_result :: "call list \<Rightarrow> string \<Rightarrow> error + string"
  call_error :: "call list \<Rightarrow> call \<Rightarrow> error option"

definition emit :: "call \<Rightarrow> world \<Rightarrow> world" where
  "emit c w = w\<lparr>trace := trace w @ [c]\<rparr>"

definition syscall_Unmount :: "env \<Rightarrow> string \<Rightarrow> int \<Rightarrow> world \<Rightarrow> errno option \<times> world" where
  "syscall_Unmount E p flags w = (unmount_errno E (trace w) p flags, emit (Unmount p flags) w)"

text \<open>
  Modelled from the spec: \<^verbatim>\<open>capabilities.SetProcessEffective\<close> is not among the
  sources.  Section 4.1: it sets the effective capability set and returns the
  previous one; a failure returns an error without modifying process state.
\<close>

definition SetProcessEffective :: "env \<Rightarrow> 64 word \<Rightarrow> world \<Rightarrow> 64 word \<times> error option \<times> world" where
  "SetProcessEffective E caps w =
     (case capset_error E (trace w) caps of
        Some e \<Rightarrow> (0, Some e, emit (CapSet caps) w)
      | None \<Rightarrow> (effective w, None, emit (CapSet caps) (w\<lparr>effective := caps\<rparr>)))"

section \<open>umount\<close>

text \<open>
  One iteration of the loop of \<^verbatim>\<open>umount\<close> either leaves the function with an error
  (\<open>Returned\<close>) or falls through to the next index with the current value of the
  named result \<^verbatim>\<open>err\<close> (\<open>Continue\<close>).
\<close>

datatype step_result = Returned error | Continue "error option"

text \<open>
  The body of the loop from the label \<^verbatim>\<open>retry\<close> on, for mount point \<open>p\<close> and the
  current value of \<^verbatim>\<open>retries\<close>:
  \<^verbatim>\<open>
  retry:
      err = syscall.Unmount(p, umountFlags)
      if err != nil && err.(syscall.Errno) != syscall.EINVAL {
          if err.(syscall.Errno) == syscall.EBUSY && retries < 10 {
              retries++
              goto retry
          }
          return fmt.Errorf("while unmounting %s directory: %s", p, err)
      }
  \<close>
\<close>

function unmount_point :: "env \<Rightarrow> string \<Rightarrow> int \<Rightarrow> nat \<Rightarrow> world \<Rightarrow> step_result \<times> world" where
  "unmount_point E p flags retries w =
     (case syscall_Unmount E p flags w of
        (None, w') \<Rightarrow> (Continue None, w')
      | (Some e, w') \<Rightarrow>
          if e \<noteq> EINVAL then
            (if e = EBUSY \<and> retries < 10 then unmount_point E p flags (retries + 1) w'
             else (Returned (WhileUnmounting p (Errno e)), w'))
          else (Continue (Some (Errno e)), w'))"
  by pat_completeness auto
termination
  by (relation "measure (\<lambda>(E, p, flags, retries, w). 10 - retries)") auto

declare unmount_point.simps [simp del]

text \<open>
  \<^verbatim>\<open>for i := len(umountPoints) - 1; i >= 0; i-- { p := umountPoints[i]; retries := 0; ... }\<close>.
  The numeric argument is \<open>i + 1\<close>: at \<open>0\<close> the loop is over and \<^verbatim>\<open>return err\<close>
  hands back whatever the last iteration left in \<^verbatim>\<open>err\<close>.
\<close>

fun umount_loop :: "env \<Rightarrow> string list \<Rightarrow> int \<Rightarrow> nat \<Rightarrow> error option \<Rightarrow> world \<Rightarrow> step_result \<times> world" where
  "umount_loop E umountPoints flags 0 err w = (Continue err, w)"
| "umount_loop E umountPoints flags (Suc i) err w =
     (case unmount_point E (umountPoints ! i) flags 0 w of
        (Returned e, w') \<Rightarrow> (Returned e, w')
      | (Continue err', w') \<Rightarrow> umount_loop E umountPoints flags i err' w')"

text \<open>
  \<^verbatim>\<open>func umount(lazy bool) (err error)\<close>.  The deferred function runs on both ways
  out of the loop: it restores the old effective set and overwrites the result
  only when the result is nil.  A failed raise returns before the deferred
  function is registered.
\<close>

definition umount :: "env \<Rightarrow> string list \<Rightarrow> bool \<Rightarrow> world \<Rightarrow> error option \<times> world" where
  "umount E umountPoints lazy w =
     (let caps = (0 :: 64 word) OR push_bit CAP_SYS_ADMIN 1;
          umountFlags = (if lazy then MNT_DETACH else 0);
          w1 = emit LockOSThread w
      in case SetProcessEffective E caps w1 of
           (oldEffective, Some e, w2) \<Rightarrow> (Some e, emit UnlockOSThread w2)
         | (oldEffective, None, w2) \<Rightarrow>
             (case umount_loop E umountPoints umountFlags (length umountPoints) None w2 of
                (r, w3) \<Rightarrow>
                  (case SetProcessEffective E oldEffective w3 of
                     (_, e, w4) \<Rightarrow>
                       (let err = (case r of Returned x \<Rightarrow> Some x | Continue x \<Rightarrow> x)
                        in (if err = None then e else err, emit UnlockOSThread w4)))))"

section \<open>CleanupContainer\<close>

text \<open>
  \<^verbatim>\<open>filepath.Base\<close> of the Go library, used by \<^verbatim>\<open>cleanupCrypt\<close>: the last element of
  the path, trailing slashes removed; \<^verbatim>\<open>"."\<close> for the empty path and \<^verbatim>\<open>"/"\<close> for a
  path of slashes only.
\<close>

definition Base :: "string \<Rightarrow> string" where
  "Base path =
     (if path = [] then ''.''
      else let stripped = rev (dropWhile (\<lambda>c. c = CHR ''/'') (rev path));
               elem = rev (takeWhile (\<lambda>c. c \<noteq> CHR ''/'') (rev stripped))
           in if elem = [] then ''/'' else elem)"

text \<open>
  What \<^verbatim>\<open>CleanupContainer\<close> reads: the getters of \<^verbatim>\<open>e.EngineConfig\<close> and
  \<^verbatim>\<open>e.CommonConfig.ContainerID\<close>, and the package-level cleanup registries
  (\<^verbatim>\<open>networkSetup\<close> and \<^verbatim>\<open>cgroupsManager\<close> are tested against nil only).  The
  list \<^verbatim>\<open>umountPoints\<close> is what \<^verbatim>\<open>umount\<close> above receives as its first argument.
\<close>

record engine_config =
  GetImageFuse :: bool
  GetDeleteTempDir :: string
  GetFakeroot :: bool
  GetNetwork :: string
  GetInstance :: bool
  ContainerID :: string

record globals =
  umountPoints :: "string list"
  networkSetup :: bool
  cgroupsManager :: bool
  cryptDev :: string

text \<open>
  \<open>ext\<close> is a call to a collaborator that returns only an error.  \<open>sylog\<close> is the
  pattern \<^verbatim>\<open>if err != nil { sylog.Errorf(fmt, args..., err) }\<close> applied to the outcome
  of a step: the failure is written to the log and nothing else happens.
\<close>

definition ext :: "env \<Rightarrow> call \<Rightarrow> world \<Rightarrow> error option \<times> world" where
  "ext E c w = (call_error E (trace w) c, emit c w)"

definition sylog :: "loglevel \<Rightarrow> string \<Rightarrow> string list \<Rightarrow> error option \<times> world \<Rightarrow> world" where
  "sylog lvl fmt args r = (case r of (Some err, w) \<Rightarrow> emit (Sylog lvl fmt args err) w | (None, w) \<Rightarrow> w)"

text \<open>
  \<^verbatim>\<open>fakerootCleanup\<close>: look up \<^verbatim>\<open>rm\<close>, then run \<^verbatim>\<open>rm -rf path\<close> through the fakeroot
  engine with \<^verbatim>\<open>starter.UseSuid(true)\<close>.  \<^verbatim>\<open>cleanupCrypt\<close>: strict unmount, then close
  the crypt device named by the base name of the path.
\<close>

definition fakerootCleanup :: "env \<Rightarrow> string \<Rightarrow> world \<Rightarrow> error option \<times> world" where
  "fakerootCleanup E path w =
     (case findbin_result E (trace w) ''rm'' of
        Inl err \<Rightarrow> (Some err, emit (FindBin ''rm'') w)
      | Inr rm \<Rightarrow>
          (let command = [rm, ''-rf'', path]
           in ext E (StarterRun ''Singularity fakeroot'' ''fakeroot'' command True)
                (emit (FindBin ''rm'') w)))"

definition cleanupCrypt :: "env \<Rightarrow> globals \<Rightarrow> string \<Rightarrow> world \<Rightarrow> error option \<times> world" where
  "cleanupCrypt E G path w =
     (case umount E (umountPoints G) False w of
        (Some err, w1) \<Rightarrow> (Some err, w1)
      | (None, w1) \<Rightarrow>
          (let devName = Base path
           in case ext E (CloseCryptDevice devName) w1 of
                (Some err, w2) \<Rightarrow> (Some (UnableToDeleteCryptDevice devName), w2)
              | (None, w2) \<Rightarrow> (None, w2)))"

text \<open>
  The blocks of \<^verbatim>\<open>CleanupContainer\<close> after \<^verbatim>\<open>e.stopFuseDrivers()\<close>, in source order:
  lazy unmount for FUSE images, removal of the image's temporary directory,
  CNI network teardown, cgroup destruction, crypt device cleanup, and the
  deletion of the instance file, whose error is the function's result.
\<close>

definition cleanup_image_fuse :: "env \<Rightarrow> engine_config \<Rightarrow> globals \<Rightarrow> world \<Rightarrow> world" where
  "cleanup_image_fuse E cfg G w =
     (if GetImageFuse cfg then sylog ErrorLvl ''%s'' [] (umount E (umountPoints G) True w) else w)"

definition cleanup_tempdir :: "env \<Rightarrow> engine_config \<Rightarrow> world \<Rightarrow> world" where
  "cleanup_tempdir E cfg w =
     (let tempDir = GetDeleteTempDir cfg
      in if tempDir \<noteq> [] \<and> \<not> GetImageFuse cfg then
           sylog ErrorLvl ''failed to delete container image tempDir %s: %s'' [tempDir]
             (if GetFakeroot cfg \<and> Getuid E \<noteq> 0 then fakerootCleanup E tempDir w
              else ext E (RemoveAll tempDir) w)
         else w)"

definition cleanup_network :: "env \<Rightarrow> engine_config \<Rightarrow> globals \<Rightarrow> world \<Rightarrow> world" where
  "cleanup_network E cfg G w =
     (if networkSetup G then
        (let net = GetNetwork cfg;
             privileged = (net \<noteq> ''none'' \<and> Geteuid E \<noteq> 0);
             w1 = (if privileged then emit Escalate w else w);
             w2 = sylog ErrorLvl ''could not delete networks: %v'' [] (ext E DelNetworks w1)
         in if privileged then emit Drop w2 else w2)
      else w)"

definition cleanup_cgroups :: "env \<Rightarrow> globals \<Rightarrow> world \<Rightarrow> world" where
  "cleanup_cgroups E G w =
     (if cgroupsManager G then
        sylog WarningLvl ''failed to remove cgroup configuration: %v'' [] (ext E CgroupDestroy w)
      else w)"

definition cleanup_crypt :: "env \<Rightarrow> globals \<Rightarrow> world \<Rightarrow> world" where
  "cleanup_crypt E G w =
     (if cryptDev G \<noteq> [] then
        sylog ErrorLvl ''could not cleanup crypt: %v'' [] (cleanupCrypt E G (cryptDev G) w)
      else w)"

definition cleanup_instance :: "env \<Rightarrow> engine_config \<Rightarrow> world \<Rightarrow> error option \<times> world" where
  "cleanup_instance E cfg w =
     (if GetInstance cfg then
        (case ext E (InstanceGet (ContainerID cfg)) w of
           (Some err, w1) \<Rightarrow> (Some err, w1)
         | (None, w1) \<Rightarrow> ext E (InstanceDelete (ContainerID cfg)) w1)
      else (None, w))"

definition CleanupContainer :: "env \<Rightarrow> engine_config \<Rightarrow> globals \<Rightarrow> world \<Rightarrow> error option \<times> world" where
  "CleanupContainer E cfg G w =
     (let w1 = emit StopFuseDrivers w;
          w2 = cleanup_image_fuse E cfg G w1;
          w3 = cleanup_tempdir E cfg w2;
          w4 = cleanup_network E cfg G w3;
          w5 = cleanup_cgroups E G w4;
          w6 = cleanup_crypt E G w5
      in cleanup_instance E cfg w6)"

section \<open>startup\<close>








section \<open>Overlay wrappers of the OCI launcher\<close>

text \<open>
  \<^verbatim>\<open>oci_overlay.go\<close>.  The state is the list of calls made so far to the overlay
  tools and to the logger; the payload \<^verbatim>\<open>f\<close> is any function on that state that
  returns an error or nil.  \<^verbatim>\<open>tools.RootFs(bundleDir).Path()\<close> and the current
  configuration (nil, or its \<^verbatim>\<open>SessiondirMaxSize\<close>, converted by \<^verbatim>\<open>int(...)\<close>) are
  given by the environment.
\<close>

record OverlaySet =
  WritableLoc :: string
  ReadonlyLocs :: "string list"

datatype oci_call =
    GetCurrentConfig
  | CreateOverlayTmpfs string int
  | DeleteOverlayTmpfs string string
  | ApplyOverlay string OverlaySet
  | UnmountOverlay string
  | Errorf string error

record oci_env =
  CurrentConfig :: "64 word option"
  RootFsPath :: "string \<Rightarrow> string"
  CreateOverlayTmpfs_result :: "oci_call list \<Rightarrow> string \<Rightarrow> int \<Rightarrow> error + string"
  oci_error :: "oci_call list \<Rightarrow> oci_call \<Rightarrow> error option"

type_synonym payload = "oci_call list \<Rightarrow> error option \<times> oci_call list"

definition oci_ext :: "oci_env \<Rightarrow> oci_call \<Rightarrow> oci_call list \<Rightarrow> error option \<times> oci_call list" where
  "oci_ext L c t = (oci_error L t c, t @ [c])"

text \<open>
  \<^verbatim>\<open>strings.SplitN(s, ":", 2)\<close>: the text before the first colon and the text after
  it, or the string itself when it has no colon.
\<close>

definition SplitN2 :: "string \<Rightarrow> string list" where
  "SplitN2 s =
     (if CHR '':'' \<in> set s then
        [takeWhile (\<lambda>c. c \<noteq> CHR '':'') s, tl (dropWhile (\<lambda>c. c \<noteq> CHR '':'') s)]
      else [s])"

definition prepareWritableTmpfs :: "oci_env \<Rightarrow> string \<Rightarrow> oci_call list \<Rightarrow> (error + string) \<times> oci_call list" where
  "prepareWritableTmpfs L bundleDir t =
     (case CurrentConfig L of
        None \<Rightarrow> (Inl ConfigNotInitialized, t @ [GetCurrentConfig])
      | Some SessiondirMaxSize \<Rightarrow>
          (CreateOverlayTmpfs_result L (t @ [GetCurrentConfig]) bundleDir (sint SessiondirMaxSize),
           t @ [GetCurrentConfig, CreateOverlayTmpfs bundleDir (sint SessiondirMaxSize)]))"

definition cleanupWritableTmpfs :: "oci_env \<Rightarrow> string \<Rightarrow> string \<Rightarrow> oci_call list \<Rightarrow> error option \<times> oci_call list" where
  "cleanupWritableTmpfs L bundleDir overlayDir t = oci_ext L (DeleteOverlayTmpfs bundleDir overlayDir) t"

text \<open>
  \<open>log_cleanup\<close> is \<^verbatim>\<open>if cleanupErr := ...; cleanupErr != nil { sylog.Errorf(fmt, cleanupErr) }\<close>.
\<close>

definition log_cleanup :: "string \<Rightarrow> error option \<times> oci_call list \<Rightarrow> oci_call list" where
  "log_cleanup fmt r =
     (case r of (Some cleanupErr, t) \<Rightarrow> t @ [Errorf fmt cleanupErr] | (None, t) \<Rightarrow> t)"

definition WrapWithWritableTmpFs :: "oci_env \<Rightarrow> payload \<Rightarrow> string \<Rightarrow> oci_call list \<Rightarrow> error option \<times> oci_call list" where
  "WrapWithWritableTmpFs L f bundleDir t =
     (case prepareWritableTmpfs L bundleDir t of
        (Inl err, t1) \<Rightarrow> (Some err, t1)
      | (Inr overlayDir, t1) \<Rightarrow>
          (case f t1 of
             (err, t2) \<Rightarrow>
               (err, log_cleanup ''While cleaning up writable tmpfs: %v''
                       (cleanupWritableTmpfs L bundleDir overlayDir t2))))"

text \<open>
  The loop over \<^verbatim>\<open>overlayPaths\<close> at the head of \<^verbatim>\<open>WrapWithOverlays\<close>, with the
  variables \<^verbatim>\<open>writableOverlayFound\<close> and \<^verbatim>\<open>ovs\<close> it updates.
\<close>

fun parse_overlays :: "string list \<Rightarrow> bool \<Rightarrow> OverlaySet \<Rightarrow> error + OverlaySet" where
  "parse_overlays [] writableOverlayFound ovs = Inr ovs"
| "parse_overlays (p # ps) writableOverlayFound ovs =
     (let splitted = SplitN2 p;
          barePath = splitted ! 0;
          writable = \<not> (length splitted > 1 \<and> splitted ! 1 = ''ro'')
      in if writable \<and> writableOverlayFound then Inl (MoreThanOneWritable (WritableLoc ovs) barePath)
         else if writable then parse_overlays ps True (ovs\<lparr>WritableLoc := barePath\<rparr>)
         else parse_overlays ps writableOverlayFound
                (ovs\<lparr>ReadonlyLocs := ReadonlyLocs ovs @ [barePath]\<rparr>))"

definition WrapWithOverlays :: "oci_env \<Rightarrow> payload \<Rightarrow> string \<Rightarrow> string list \<Rightarrow> oci_call list \<Rightarrow> error option \<times> oci_call list" where
  "WrapWithOverlays L f bundleDir overlayPaths t =
     (case parse_overlays overlayPaths False \<lparr>WritableLoc = [], ReadonlyLocs = []\<rparr> of
        Inl err \<Rightarrow> (Some err, t)
      | Inr ovs \<Rightarrow>
          (let rootFsDir = RootFsPath L bundleDir
           in case oci_ext L (ApplyOverlay rootFsDir ovs) t of
                (Some err, t1) \<Rightarrow> (Some err, t1)
              | (None, t1) \<Rightarrow>
                  (case f t1 of
                     (err, t2) \<Rightarrow>
                       (err, log_cleanup ''While unmounting rootfs overlay: %v''
                               (oci_ext L (UnmountOverlay rootFsDir) t2)))))"

section \<open>Overlay sets\<close>

text \<open>
  Modelled from the spec: \<^verbatim>\<open>Set.Mount\<close> of package \<^verbatim>\<open>overlay\<close> is not among the sources
  (only its test \<^verbatim>\<open>overlay_set_linux_test.go\<close> is).  Sections 3 and 4.3: a set is an
  ordered sequence of read-only items plus zero or one writable item; \<^verbatim>\<open>Mount\<close>
  validates that no two items share a resolved source path, checked across
  read-only and writable items, and that at most one item is writable; on a
  validation failure it returns an error and performs no mounts; otherwise it
  mounts the read-only items in order, then the writable item, and composes
  one overlay mount at \<^verbatim>\<open>rootfsDir\<close>.  \<open>SourcePath\<close> is the resolved path.
\<close>

record Item =
  SourcePath :: string
  Writable :: bool

record overlay_Set =
  ReadonlyOverlays :: "Item list"
  WritableOverlay :: "Item option"

datatype mount_call = MountItem string | MountOverlay string

record mount_env =
  mount_error :: "mount_call list \<Rightarrow> mount_call \<Rightarrow> error option"

definition set_items :: "overlay_Set \<Rightarrow> Item list" where
  "set_items s = ReadonlyOverlays s @ (case WritableOverlay s of None \<Rightarrow> [] | Some i \<Rightarrow> [i])"

fun first_duplicate :: "string list \<Rightarrow> string option" where
  "first_duplicate [] = None"
| "first_duplicate (p # ps) = (if p \<in> set ps then Some p else first_duplicate ps)"

fun mount_items :: "mount_env \<Rightarrow> Item list \<Rightarrow> mount_call list \<Rightarrow> error option \<times> mount_call list" where
  "mount_items M [] t = (None, t)"
| "mount_items M (i # is) t =
     (case mount_error M t (MountItem (SourcePath i)) of
        Some err \<Rightarrow> (Some err, t @ [MountItem (SourcePath i)])
      | None \<Rightarrow> mount_items M is (t @ [MountItem (SourcePath i)]))"

definition Set_Mount :: "mount_env \<Rightarrow> overlay_Set \<Rightarrow> string \<Rightarrow> mount_call list \<Rightarrow> error option \<times> mount_call list" where
  "Set_Mount M s rootfsDir t =
     (case first_duplicate (map SourcePath (set_items s)) of
        Some p \<Rightarrow> (Some (DuplicateOverlaySource p), t)
      | None \<Rightarrow>
          if 1 < length (filter Writable (set_items s)) then (Some MultipleWritableOverlays, t)
          else (case mount_items M (set_items s) t of
                  (Some err, t1) \<Rightarrow> (Some err, t1)
                | (None, t1) \<Rightarrow>
                    (mount_error M t1 (MountOverlay rootfsDir), t1 @ [MountOverlay rootfsDir])))"

section \<open>Vocabulary of the properties\<close>

text \<open>
  \<open>attempts p flags w n\<close> is the state after \<open>n\<close> further unmount attempts on \<open>p\<close>;
  \<open>answer E p flags w j\<close> is what the kernel answers to attempt number \<open>j\<close>
  (counted from 0) of such a run, and \<open>busy_times E p flags w n\<close> says that the
  first \<open>n\<close> attempts are all answered \<^verbatim>\<open>EBUSY\<close>.
\<close>

definition attempts :: "string \<Rightarrow> int \<Rightarrow> world \<Rightarrow> nat \<Rightarrow> world" where
  "attempts p flags w n = w\<lparr>trace := trace w @ replicate n (Unmount p flags)\<rparr>"

definition answer :: "env \<Rightarrow> string \<Rightarrow> int \<Rightarrow> world \<Rightarrow> nat \<Rightarrow> errno option" where
  "answer E p flags w j = unmount_errno E (trace (attempts p flags w j)) p flags"

definition busy_times :: "env \<Rightarrow> string \<Rightarrow> int \<Rightarrow> world \<Rightarrow> nat \<Rightarrow> bool" where
  "busy_times E p flags w n = (\<forall>j \<in> set [0..<n]. answer E p flags w j = Some EBUSY)"

text \<open>
  \<open>is_Unmount\<close> holds of the unmount syscalls of a trace, and \<open>is_Returned\<close> of a
  loop result that leaves \<^verbatim>\<open>umount\<close> with an error.
\<close>

fun is_Unmount :: "call \<Rightarrow> bool" where
  "is_Unmount (Unmount p f) = True"
| "is_Unmount c = False"

fun is_Returned :: "step_result \<Rightarrow> bool" where
  "is_Returned (Returned e) = True"
| "is_Returned (Continue err) = False"


















text \<open>
  A description is writable for \<^verbatim>\<open>WrapWithOverlays\<close> (\<open>is_writable\<close>) unless the text
  after its first colon is \<^verbatim>\<open>ro\<close>; \<open>writable_desc\<close> is the reading "writable unless
  suffixed \<^verbatim>\<open>:ro\<close>".  \<open>cleanup_log\<close> is the log line of a failed cleanup call.
\<close>

definition is_writable :: "string \<Rightarrow> bool" where
  "is_writable p = (\<not> (length (SplitN2 p) > 1 \<and> SplitN2 p ! 1 = ''ro''))"

definition writable_desc :: "string \<Rightarrow> bool" where
  "writable_desc p = (\<not> suffix '':ro'' p)"

definition cleanup_log :: "oci_env \<Rightarrow> string \<Rightarrow> oci_call \<Rightarrow> oci_call list \<Rightarrow> oci_call list" where
  "cleanup_log L fmt c t = (case oci_error L t c of Some cleanupErr \<Rightarrow> [Errorf fmt cleanupErr] | None \<Rightarrow> [])"

section \<open>Sample environments and configurations\<close>

text \<open>
  Concrete inputs on which the theorems below are instantiated: an environment
  in which every call succeeds, ones in which unmounting answers \<^verbatim>\<open>EBUSY\<close> a given
  number of times, or \<^verbatim>\<open>EINVAL\<close> or \<^verbatim>\<open>EPERM\<close> on one path, one in which moreover
  every capability call but the first fails, and one in which the removal of
  the temporary directory, the network teardown, the cgroup destruction, the
  closing of the crypt device and the deletion of the instance file fail.
\<close>

definition w0 :: world where
  "w0 = \<lparr>effective = 0, trace = []\<rparr>"

definition quiet_env :: env where
  "quiet_env = \<lparr>Getuid = 1000, Geteuid = 1000,
     unmount_errno = (\<lambda>h p f. None), capset_error = (\<lambda>h c. None),
     findbin_result = (\<lambda>h n. Inr (''/usr/bin/'' @ n)), call_error = (\<lambda>h c. None)\<rparr>"

definition busy_env :: "nat \<Rightarrow> env" where
  "busy_env n = quiet_env\<lparr>unmount_errno :=
     (\<lambda>h p f. if length (filter is_Unmount h) < n then Some EBUSY else None)\<rparr>"

definition einval_env :: "string \<Rightarrow> env" where
  "einval_env q = quiet_env\<lparr>unmount_errno := (\<lambda>h p f. if p = q then Some EINVAL else None)\<rparr>"

definition eperm_env :: "string \<Rightarrow> env" where
  "eperm_env q = quiet_env\<lparr>unmount_errno := (\<lambda>h p f. if p = q then Some EPERM else None)\<rparr>"

definition restore_fails_env :: env where
  "restore_fails_env = (eperm_env ''/b'')\<lparr>capset_error :=
     (\<lambda>h c. if h = [LockOSThread] then None else Some (External ''capset: operation not permitted''))\<rparr>"

definition abc :: "string list" where "abc = [''/a'', ''/b'', ''/c'']"

definition cfg1 :: engine_config where
  "cfg1 = \<lparr>GetImageFuse = False, GetDeleteTempDir = ''/tmp/img'', GetFakeroot = False,
           GetNetwork = ''bridge'', GetInstance = True, ContainerID = ''inst1''\<rparr>"

definition G1 :: globals where
  "G1 = \<lparr>umountPoints = [''/mnt''], networkSetup = True, cgroupsManager = True,
         cryptDev = ''/dev/mapper/crypt0''\<rparr>"

definition failing_env :: env where
  "failing_env = quiet_env\<lparr>call_error :=
     (\<lambda>h c. case c of
        RemoveAll d \<Rightarrow> Some (External ''permission denied'')
      | DelNetworks \<Rightarrow> Some (External ''network is down'')
      | CgroupDestroy \<Rightarrow> Some (External ''cgroup busy'')
      | CloseCryptDevice d \<Rightarrow> Some (External ''device in use'')
      | InstanceDelete i \<Rightarrow> Some (External ''instance file in use'')
      | _ \<Rightarrow> None)\<rparr>"



definition oci_ok :: oci_env where
  "oci_ok = \<lparr>CurrentConfig = Some 64, RootFsPath = (\<lambda>b. b @ ''/rootfs''),
     CreateOverlayTmpfs_result = (\<lambda>t b n. Inr (b @ ''/overlay'')),
     oci_error = (\<lambda>t c. None)\<rparr>"

definition cleanup_fails :: oci_env where
  "cleanup_fails = oci_ok\<lparr>oci_error :=
     (\<lambda>t c. case c of
        DeleteOverlayTmpfs b d \<Rightarrow> Some (External ''device or resource busy'')
      | UnmountOverlay d \<Rightarrow> Some (External ''device or resource busy'')
      | _ \<Rightarrow> None)\<rparr>"

definition exit_3 :: payload where
  "exit_3 t = (Some (External ''exit status 3''), t)"

definition ro_item :: "string \<Rightarrow> Item" where
  "ro_item p = \<lparr>SourcePath = p, Writable = False\<rparr>"

definition rw_item :: "string \<Rightarrow> Item" where
  "rw_item p = \<lparr>SourcePath = p, Writable = True\<rparr>"

definition dup_set :: overlay_Set where
  "dup_set = \<lparr>ReadonlyOverlays = map ro_item [''/tmp/a'', ''/tmp/b'', ''/tmp/c'', ''/tmp/b'', ''/tmp/d''],
              WritableOverlay = None\<rparr>"

definition mounts_ok :: mount_env where
  "mounts_ok = \<lparr>mount_error = (\<lambda>t c. None)\<rparr>"

section \<open>Properties of umount\<close>

subsection \<open>The retry loop on one mount point\<close>

lemma attempts_0: "attempts p f w 0 = w"
  by (simp add: attempts_def)

lemma attempts_emit: "attempts p f (emit (Unmount p f) w) n = attempts p f w (Suc n)"
  by (simp add: attempts_def emit_def replicate_app_Cons_same)

lemma busy_times_iff: "busy_times E p f w n \<longleftrightarrow> (\<forall>j<n. answer E p f w j = Some EBUSY)"
  by (auto simp: busy_times_def)

lemma busy_times_Suc:
  "busy_times E p f w (Suc k) \<longleftrightarrow> answer E p f w 0 = Some EBUSY \<and> busy_times E p f (emit (Unmount p f) w) k"
proof -
  have "(\<forall>j<Suc k. answer E p f w j = Some EBUSY) \<longleftrightarrow>
        answer E p f w 0 = Some EBUSY \<and> (\<forall>j<k. answer E p f w (Suc j) = Some EBUSY)"
    by (metis less_Suc_eq_0_disj Suc_less_eq zero_less_Suc)
  moreover have "\<And>j. answer E p f (emit (Unmount p f) w) j = answer E p f w (Suc j)"
    by (simp add: answer_def attempts_emit)
  ultimately show ?thesis
    by (simp add: busy_times_iff)
qed

lemma unmount_point_busy:
  "retries + k \<le> 10 \<Longrightarrow> busy_times E p f w k \<Longrightarrow>
   unmount_point E p f retries w = unmount_point E p f (retries + k) (attempts p f w k)"
proof (induction k arbitrary: retries w)
  case 0
  then show ?case by (simp add: attempts_0)
next
  case (Suc k)
  from Suc.prems(2) have a0: "unmount_errno E (trace w) p f = Some EBUSY"
    and rest: "busy_times E p f (emit (Unmount p f) w) k"
    by (simp_all add: busy_times_Suc answer_def attempts_0)
  from Suc.prems(1) have r: "retries < 10" "Suc retries + k \<le> 10" by simp_all
  have "unmount_point E p f retries w = unmount_point E p f (Suc retries) (emit (Unmount p f) w)"
    using a0 r(1) by (subst unmount_point.simps) (simp add: syscall_Unmount_def EBUSY_def EINVAL_def)
  also have "\<dots> = unmount_point E p f (Suc retries + k) (attempts p f (emit (Unmount p f) w) k)"
    using Suc.IH [OF r(2) rest] .
  finally show ?case by (simp add: attempts_emit)
qed

lemma unmount_point_ok:
  "answer E p f w 0 = None \<Longrightarrow> unmount_point E p f r w = (Continue None, attempts p f w 1)"
  by (subst unmount_point.simps) (simp add: syscall_Unmount_def answer_def attempts_def emit_def)

lemma unmount_point_exhausted:
  "answer E p f w 0 = Some EBUSY \<Longrightarrow>
   unmount_point E p f 10 w = (Returned (WhileUnmounting p (Errno EBUSY)), attempts p f w 1)"
  by (subst unmount_point.simps)
     (simp add: syscall_Unmount_def answer_def attempts_def emit_def EBUSY_def EINVAL_def)

lemma answer_shift: "answer E p f (attempts p f w k) j = answer E p f w (k + j)"
  by (simp add: answer_def attempts_def replicate_add)

lemma attempts_attempts: "attempts p f (attempts p f w k) j = attempts p f w (k + j)"
  by (simp add: attempts_def replicate_add)

lemma retry_success:
  assumes "k \<le> 10" "busy_times E p f w k" "answer E p f w k = None"
  shows "unmount_point E p f 0 w = (Continue None, attempts p f w (Suc k))"
proof -
  have "unmount_point E p f 0 w = unmount_point E p f k (attempts p f w k)"
    using unmount_point_busy [of 0 k E p f w] assms by simp
  also have "\<dots> = (Continue None, attempts p f (attempts p f w k) 1)"
    by (rule unmount_point_ok) (simp add: answer_shift assms)
  finally show ?thesis by (simp add: attempts_attempts)
qed

lemma retry_fatal:
  assumes "busy_times E p f w 11"
  shows "unmount_point E p f 0 w = (Returned (WhileUnmounting p (Errno EBUSY)), attempts p f w 11)"
proof -
  from assms have b10: "busy_times E p f w 10" and a10: "answer E p f w 10 = Some EBUSY"
    by (simp_all add: busy_times_iff)
  have "unmount_point E p f 0 w = unmount_point E p f 10 (attempts p f w 10)"
    using unmount_point_busy [of 0 10 E p f w] b10 by simp
  also have "\<dots> = (Returned (WhileUnmounting p (Errno EBUSY)), attempts p f (attempts p f w 10) 1)"
    by (rule unmount_point_exhausted) (simp add: answer_shift a10)
  finally show ?thesis by (simp add: attempts_attempts)
qed

text \<open>
  Whatever the kernel answers, the loop body makes between one and eleven
  attempts on its mount point and touches nothing else; it leaves \<^verbatim>\<open>umount\<close> only
  with an errno other than \<^verbatim>\<open>EINVAL\<close>, and with \<^verbatim>\<open>EBUSY\<close> only after the eleventh
  attempt.
\<close>

lemma unmount_point_shape:
  "unmount_point E p f r w = (res, w') \<Longrightarrow> r \<le> 10 \<Longrightarrow>
   \<exists>k. 1 \<le> k \<and> k + r \<le> 11 \<and> w' = attempts p f w k \<and>
       (\<forall>e. res = Returned e \<longrightarrow>
          (\<exists>n. e = WhileUnmounting p (Errno n) \<and> n \<noteq> EINVAL \<and> (n = EBUSY \<longrightarrow> k + r = 11)))"
proof (induction E p f r w rule: unmount_point.induct)
  case (1 E p flags retries w)
  show ?case
  proof (cases "unmount_errno E (trace w) p flags")
    case None
    with "1.prems" have "res = Continue None" "w' = attempts p flags w 1"
      by (simp_all add: unmount_point.simps [of E p flags retries w] syscall_Unmount_def attempts_def emit_def)
    with "1.prems" show ?thesis by (intro exI [of _ 1]) auto
  next
    case (Some e)
    show ?thesis
    proof (cases "e \<noteq> EINVAL \<and> e = EBUSY \<and> retries < 10")
      case True
      with Some "1.prems"
      have rec: "unmount_point E p flags (retries + 1) (emit (Unmount p flags) w) = (res, w')"
        by (simp add: unmount_point.simps [of E p flags retries w] syscall_Unmount_def)
      from True Some have "\<exists>k. 1 \<le> k \<and> k + (retries + 1) \<le> 11 \<and> w' = attempts p flags (emit (Unmount p flags) w) k \<and>
       (\<forall>e. res = Returned e \<longrightarrow>
          (\<exists>n. e = WhileUnmounting p (Errno n) \<and> n \<noteq> EINVAL \<and> (n = EBUSY \<longrightarrow> k + (retries + 1) = 11)))"
        by (intro "1.IH" [of "Some e" "emit (Unmount p flags) w" e])
           (use rec in \<open>simp_all add: syscall_Unmount_def\<close>)
      then obtain k where k: "1 \<le> k" "k + (retries + 1) \<le> 11" "w' = attempts p flags (emit (Unmount p flags) w) k"
        "\<forall>e. res = Returned e \<longrightarrow>
          (\<exists>n. e = WhileUnmounting p (Errno n) \<and> n \<noteq> EINVAL \<and> (n = EBUSY \<longrightarrow> k + (retries + 1) = 11))"
        by blast
      from True k "1.prems" show ?thesis
        by (intro exI [of _ "Suc k"]) (auto simp: attempts_emit)
    next
      case False
      have ne: "EBUSY \<noteq> EINVAL" by (simp add: EBUSY_def EINVAL_def)
      from False Some have "unmount_point E p flags retries w =
          (if e \<noteq> EINVAL then Returned (WhileUnmounting p (Errno e)) else Continue (Some (Errno e)),
           attempts p flags w 1)"
        by (subst unmount_point.simps) (auto simp: syscall_Unmount_def attempts_def emit_def)
      with "1.prems" have w': "w' = attempts p flags w 1"
        and res: "res = (if e \<noteq> EINVAL then Returned (WhileUnmounting p (Errno e)) else Continue (Some (Errno e)))"
        by simp_all
      have fatal: "\<exists>n. x = WhileUnmounting p (Errno n) \<and> n \<noteq> EINVAL \<and> (n = EBUSY \<longrightarrow> 1 + retries = 11)"
        if "res = Returned x" for x
      proof -
        from that res have x: "x = WhileUnmounting p (Errno e)" and e: "e \<noteq> EINVAL"
          by (simp_all split: if_splits)
        from False e have "e = EBUSY \<longrightarrow> retries = 10" using "1.prems" by auto
        with x e show ?thesis by auto
      qed
      have "1 \<le> (1::nat) \<and> 1 + retries \<le> 11 \<and> w' = attempts p flags w 1 \<and>
        (\<forall>x. res = Returned x \<longrightarrow>
          (\<exists>n. x = WhileUnmounting p (Errno n) \<and> n \<noteq> EINVAL \<and> (n = EBUSY \<longrightarrow> 1 + retries = 11)))"
        using w' fatal "1.prems" by simp
      then show ?thesis by (rule exI)
    qed
  qed
qed

text \<open>
  The loop runs down the indices, so the points registered last are a loop of
  their own that hands over to the points registered before them.
\<close>

lemma umount_loop_append:
  "n \<le> length xs \<Longrightarrow>
   umount_loop E (pre @ xs) f (length pre + n) err w =
     (case umount_loop E xs f n err w of
        (Returned e, w') \<Rightarrow> (Returned e, w')
      | (Continue err', w') \<Rightarrow> umount_loop E (pre @ xs) f (length pre) err' w')"
proof (induction n arbitrary: err w)
  case 0
  then show ?case by simp
next
  case (Suc n)
  then have n: "n \<le> length xs" "n < length xs" by simp_all
  have nth: "(pre @ xs) ! (length pre + n) = xs ! n" by simp
  show ?case
    by (simp add: nth Suc.IH [OF n(1)] split: prod.splits step_result.splits)
qed

subsection \<open>Bounded retry on a busy mount point\<close>

text \<open>
  C2, as the code has it.  The test \<^verbatim>\<open>retries < 10\<close> allows ten retries after the
  first attempt, eleven attempts in all.  For the mount point at index \<open>i\<close> of
  the list: if the unmount syscall answers \<^verbatim>\<open>EBUSY\<close> \<open>k\<close> times, \<open>k\<close> at most 10, and
  then succeeds, the loop has made \<open>k + 1\<close> attempts (at most 11) on that point
  and goes on to index \<open>i - 1\<close> with a nil error; if it answers \<^verbatim>\<open>EBUSY\<close> eleven
  times in a row, \<^verbatim>\<open>umount\<close> returns the error for that point after exactly eleven
  attempts.
\<close>

theorem umount_busy_retry:
  "(i < length pts \<and> k \<le> 10 \<and> busy_times E (pts ! i) f w k \<and> answer E (pts ! i) f w k = None \<longrightarrow>
      umount_loop E pts f (Suc i) err w = umount_loop E pts f i None (attempts (pts ! i) f w (Suc k))) \<and>
   (i < length pts \<and> busy_times E (pts ! i) f w 11 \<longrightarrow>
      umount_loop E pts f (Suc i) err w =
        (Returned (WhileUnmounting (pts ! i) (Errno EBUSY)), attempts (pts ! i) f w 11))"
proof (intro conjI impI)
  assume "i < length pts \<and> k \<le> 10 \<and> busy_times E (pts ! i) f w k \<and> answer E (pts ! i) f w k = None"
  then have "unmount_point E (pts ! i) f 0 w = (Continue None, attempts (pts ! i) f w (Suc k))"
    by (simp add: retry_success)
  then show "umount_loop E pts f (Suc i) err w = umount_loop E pts f i None (attempts (pts ! i) f w (Suc k))"
    by simp
next
  assume "i < length pts \<and> busy_times E (pts ! i) f w 11"
  then have "unmount_point E (pts ! i) f 0 w =
      (Returned (WhileUnmounting (pts ! i) (Errno EBUSY)), attempts (pts ! i) f w 11)"
    by (simp add: retry_fatal)
  then show "umount_loop E pts f (Suc i) err w =
      (Returned (WhileUnmounting (pts ! i) (Errno EBUSY)), attempts (pts ! i) f w 11)"
    by simp
qed

theorem umount_busy_retry_witness:
  "(0 < length [''/mnt''] \<and> (10::nat) \<le> 10 \<and> busy_times (busy_env 10) ([''/mnt''] ! 0) 0 w0 10 \<and>
    answer (busy_env 10) ([''/mnt''] ! 0) 0 w0 10 = None) \<and>
   umount_loop (busy_env 10) [''/mnt''] 0 (Suc 0) None w0 =
     umount_loop (busy_env 10) [''/mnt''] 0 0 None (attempts ([''/mnt''] ! 0) 0 w0 (Suc 10)) \<and>
   (0 < length [''/mnt''] \<and> busy_times (busy_env 11) ([''/mnt''] ! 0) 0 w0 11) \<and>
   umount_loop (busy_env 11) [''/mnt''] 0 (Suc 0) None w0 =
     (Returned (WhileUnmounting ([''/mnt''] ! 0) (Errno EBUSY)), attempts ([''/mnt''] ! 0) 0 w0 11)"
proof -
  have h1: "0 < length [''/mnt''] \<and> (10::nat) \<le> 10 \<and> busy_times (busy_env 10) ([''/mnt''] ! 0) 0 w0 10 \<and>
    answer (busy_env 10) ([''/mnt''] ! 0) 0 w0 10 = None"
    by code_simp
  have h2: "0 < length [''/mnt''] \<and> busy_times (busy_env 11) ([''/mnt''] ! 0) 0 w0 11"
    by code_simp
  from h1 h2 umount_busy_retry [of 0 "[''/mnt'']" 10 "busy_env 10" 0 w0 None]
    umount_busy_retry [of 0 "[''/mnt'']" 10 "busy_env 11" 0 w0 None]
  show ?thesis by blast
qed

text \<open>
  C2 as stated asks for a fatal error after ten consecutive \<^verbatim>\<open>EBUSY\<close> answers and
  for at most ten attempts.  With ten \<^verbatim>\<open>EBUSY\<close> answers followed by success the
  loop makes an eleventh attempt and succeeds.
\<close>

theorem umount_ten_busy_counterexample:
  "\<not> (busy_times (busy_env 10) ''/mnt'' 0 w0 10 \<longrightarrow>
      is_Returned (fst (umount_loop (busy_env 10) [''/mnt''] 0 (length [''/mnt'']) None w0)) \<and>
      length (trace (snd (umount_loop (busy_env 10) [''/mnt''] 0 (length [''/mnt'']) None w0))) \<le> 10)"
  by code_simp

subsection \<open>Order of the traversal\<close>

text \<open>
  When no answer is fatal (each attempt succeeds or answers \<^verbatim>\<open>EINVAL\<close>), the loop
  makes one attempt on each point, last registered first, and \<^verbatim>\<open>EINVAL\<close> does not
  stop it.
\<close>

lemma unmount_point_benign:
  assumes "unmount_errno E (trace w) p f = None \<or> unmount_errno E (trace w) p f = Some EINVAL"
  shows "\<exists>err. unmount_point E p f 0 w = (Continue err, emit (Unmount p f) w)"
  using assms
  by (subst unmount_point.simps) (auto simp: syscall_Unmount_def)

lemma umount_loop_reverse_order:
  assumes benign: "\<And>h p. unmount_errno E h p f = None \<or> unmount_errno E h p f = Some EINVAL"
    and n: "n \<le> length pts"
  shows "\<exists>err'. umount_loop E pts f n err w =
           (Continue err', w\<lparr>trace := trace w @ map (\<lambda>p. Unmount p f) (rev (take n pts))\<rparr>)"
  using n
proof (induction n arbitrary: err w)
  case 0
  then show ?case by simp
next
  case (Suc n)
  have "\<exists>e1. unmount_point E (pts ! n) f 0 w = (Continue e1, emit (Unmount (pts ! n) f) w)"
    by (rule unmount_point_benign) (rule benign)
  then obtain e1
    where up: "unmount_point E (pts ! n) f 0 w = (Continue e1, emit (Unmount (pts ! n) f) w)" by blast
  from Suc.prems have n: "n \<le> length pts" "n < length pts" by simp_all
  from Suc.IH [OF n(1), of e1 "emit (Unmount (pts ! n) f) w"] obtain e2
    where ih: "umount_loop E pts f n e1 (emit (Unmount (pts ! n) f) w) =
      (Continue e2, (emit (Unmount (pts ! n) f) w)
         \<lparr>trace := trace (emit (Unmount (pts ! n) f) w) @ map (\<lambda>p. Unmount p f) (rev (take n pts))\<rparr>)"
    by blast
  have "take (Suc n) pts = take n pts @ [pts ! n]"
    using n(2) by (simp add: take_Suc_conv_app_nth)
  then show ?case
    using up ih by (simp add: emit_def)
qed

subsection \<open>EINVAL on the first registered mount point\<close>

text \<open>
  C8.  The loop does go on after \<^verbatim>\<open>EINVAL\<close>, but it leaves the errno in the named
  result \<^verbatim>\<open>err\<close>, and the final \<^verbatim>\<open>return err\<close> hands it to the caller when it came
  from the last point visited (index 0).  With the single registered point
  \<^verbatim>\<open>/mnt\<close> answering \<^verbatim>\<open>EINVAL\<close>, \<^verbatim>\<open>umount\<close> returns \<^verbatim>\<open>EINVAL\<close>; with the same answer on
  a point that is not the last one visited, it returns nil.  The callers take
  the result for a failure: the lazy unmount step of \<^verbatim>\<open>CleanupContainer\<close> logs it as
  an error, and \<^verbatim>\<open>cleanupCrypt\<close> returns it without closing the crypt device.
\<close>

theorem umount_einval_leak:
  "umount (einval_env ''/mnt'') [''/mnt''] True w0 =
     (Some (Errno EINVAL),
      \<lparr>effective = 0,
       trace = [LockOSThread, CapSet (push_bit CAP_SYS_ADMIN 1), Unmount ''/mnt'' MNT_DETACH,
                CapSet 0, UnlockOSThread]\<rparr>) \<and>
   fst (umount (einval_env ''/b'') [''/a'', ''/b''] True w0) = None \<and>
   trace (cleanup_image_fuse (einval_env ''/mnt'') (cfg1\<lparr>GetImageFuse := True\<rparr>) G1 w0) =
     [LockOSThread, CapSet (push_bit CAP_SYS_ADMIN 1), Unmount ''/mnt'' MNT_DETACH,
      CapSet 0, UnlockOSThread, Sylog ErrorLvl ''%s'' [] (Errno EINVAL)] \<and>
   cleanupCrypt (einval_env ''/mnt'') G1 (cryptDev G1) w0 =
     (Some (Errno EINVAL),
      \<lparr>effective = 0,
       trace = [LockOSThread, CapSet (push_bit CAP_SYS_ADMIN 1), Unmount ''/mnt'' 0,
                CapSet 0, UnlockOSThread]\<rparr>)"
  by code_simp

subsection \<open>The effective capability set\<close>

lemma unmount_point_effective:
  "unmount_point E p f 0 w = (res, w') \<Longrightarrow> effective w' = effective w"
proof -
  assume "unmount_point E p f 0 w = (res, w')"
  from unmount_point_shape [OF this] obtain k where "w' = attempts p f w k" by auto
  then show ?thesis by (simp add: attempts_def)
qed

lemma umount_loop_effective:
  "umount_loop E pts f n err w = (res, w') \<Longrightarrow> effective w' = effective w"
proof (induction n arbitrary: err w)
  case 0
  then show ?case by simp
next
  case (Suc n)
  obtain r1 w1 where up: "unmount_point E (pts ! n) f 0 w = (r1, w1)"
    by (cases "unmount_point E (pts ! n) f 0 w")
  from unmount_point_effective [OF up] have e1: "effective w1 = effective w" .
  show ?case
  proof (cases r1)
    case (Returned e)
    with Suc.prems up e1 show ?thesis by simp
  next
    case (Continue err')
    with Suc.prems up have "umount_loop E pts f n err' w1 = (res, w')" by simp
    from Suc.IH [OF this] e1 show ?thesis by simp
  qed
qed

text \<open>
  C9, as the code has it.  If raising \<^verbatim>\<open>CAP_SYS_ADMIN\<close> fails, \<^verbatim>\<open>umount\<close> returns that
  error, the state is unchanged but for the thread lock and the failed call,
  and no unmount is made.  If it succeeds, then whichever way the loop ends
  (result \<open>r\<close>), the snapshot is the effective set from before the call and the
  last capability call asks for that snapshot; the effective set is the
  snapshot again when that call succeeds and stays raised when it fails.  The
  result of \<^verbatim>\<open>umount\<close> is the error the loop left, if any, and the outcome of the
  restore only when the loop left nil: a restore failure after a failed loop is
  dropped.
\<close>

theorem umount_restores_effective:
  "(capset_error E (trace w @ [LockOSThread]) (push_bit CAP_SYS_ADMIN 1) = Some e0 \<longrightarrow>
      umount E pts lazy w =
        (Some e0, w\<lparr>trace := trace w @ [LockOSThread, CapSet (push_bit CAP_SYS_ADMIN 1), UnlockOSThread]\<rparr>)) \<and>
   (SetProcessEffective E (push_bit CAP_SYS_ADMIN 1) (emit LockOSThread w) = (old, None, w2) \<and>
    umount_loop E pts (if lazy then MNT_DETACH else 0) (length pts) None w2 = (r, w3) \<and>
    SetProcessEffective E old w3 = (x, e, w4) \<longrightarrow>
      old = effective w \<and>
      trace w4 = trace w3 @ [CapSet (effective w)] \<and>
      snd (umount E pts lazy w) = emit UnlockOSThread w4 \<and>
      (e = None \<longrightarrow> effective (snd (umount E pts lazy w)) = effective w) \<and>
      (e \<noteq> None \<longrightarrow> effective (snd (umount E pts lazy w)) = push_bit CAP_SYS_ADMIN 1) \<and>
      fst (umount E pts lazy w) =
        (case r of Returned y \<Rightarrow> Some y | Continue None \<Rightarrow> e | Continue (Some y) \<Rightarrow> Some y))"
proof (intro conjI impI)
  assume "capset_error E (trace w @ [LockOSThread]) (push_bit CAP_SYS_ADMIN 1) = Some e0"
  then show "umount E pts lazy w =
        (Some e0, w\<lparr>trace := trace w @ [LockOSThread, CapSet (push_bit CAP_SYS_ADMIN 1), UnlockOSThread]\<rparr>)"
    by (simp add: umount_def SetProcessEffective_def emit_def)
next
  assume a: "SetProcessEffective E (push_bit CAP_SYS_ADMIN 1) (emit LockOSThread w) = (old, None, w2) \<and>
    umount_loop E pts (if lazy then MNT_DETACH else 0) (length pts) None w2 = (r, w3) \<and>
    SetProcessEffective E old w3 = (x, e, w4)"
  then have raise: "SetProcessEffective E (push_bit CAP_SYS_ADMIN 1) (emit LockOSThread w) = (old, None, w2)"
    and loop: "umount_loop E pts (if lazy then MNT_DETACH else 0) (length pts) None w2 = (r, w3)"
    and restore: "SetProcessEffective E old w3 = (x, e, w4)"
    by simp_all
  from raise show old: "old = effective w"
    by (auto simp: SetProcessEffective_def emit_def split: option.splits)
  from raise have raised: "effective w2 = push_bit CAP_SYS_ADMIN 1"
    by (auto simp: SetProcessEffective_def emit_def split: option.splits)
  from umount_loop_effective [OF loop] raised have e3: "effective w3 = push_bit CAP_SYS_ADMIN 1"
    by simp
  from restore old show "trace w4 = trace w3 @ [CapSet (effective w)]"
    by (auto simp: SetProcessEffective_def emit_def split: option.splits)
  have um: "umount E pts lazy w =
      (if (case r of Returned x \<Rightarrow> Some x | Continue x \<Rightarrow> x) = None then e
       else (case r of Returned x \<Rightarrow> Some x | Continue x \<Rightarrow> x), emit UnlockOSThread w4)"
    using raise loop restore by (simp add: umount_def Let_def)
  show "snd (umount E pts lazy w) = emit UnlockOSThread w4"
    by (simp add: um)
  show "effective (snd (umount E pts lazy w)) = effective w" if "e = None"
    using that restore old
    by (auto simp: um SetProcessEffective_def emit_def split: option.splits)
  show "effective (snd (umount E pts lazy w)) = push_bit CAP_SYS_ADMIN 1" if "e \<noteq> None"
    using that restore e3
    by (auto simp: um SetProcessEffective_def emit_def split: option.splits)
  show "fst (umount E pts lazy w) =
        (case r of Returned y \<Rightarrow> Some y | Continue None \<Rightarrow> e | Continue (Some y) \<Rightarrow> Some y)"
    by (simp add: um split: step_result.splits option.splits)
qed

theorem umount_restores_effective_witness:
  "umount (quiet_env\<lparr>capset_error := (\<lambda>h c. Some (External ''capset: operation not permitted''))\<rparr>) abc True w0 =
     (Some (External ''capset: operation not permitted''),
      w0\<lparr>trace := trace w0 @ [LockOSThread, CapSet (push_bit CAP_SYS_ADMIN 1), UnlockOSThread]\<rparr>) \<and>
   effective (snd (umount (eperm_env ''/b'') abc True (w0\<lparr>effective := 5\<rparr>))) = 5 \<and>
   fst (umount (eperm_env ''/b'') abc True (w0\<lparr>effective := 5\<rparr>)) =
     Some (WhileUnmounting ''/b'' (Errno EPERM)) \<and>
   fst (umount (quiet_env\<lparr>capset_error := (\<lambda>h c. if h = [LockOSThread] then None else Some (External ''capset: operation not permitted''))\<rparr>) abc True w0)
     = Some (External ''capset: operation not permitted'') \<and>
   fst (umount restore_fails_env abc True w0) = Some (WhileUnmounting ''/b'' (Errno EPERM)) \<and>
   effective (snd (umount restore_fails_env abc True w0)) = push_bit CAP_SYS_ADMIN 1"
proof -
  let ?E1 = "quiet_env\<lparr>capset_error := (\<lambda>h c. Some (External ''capset: operation not permitted''))\<rparr>"
  let ?E3 = "quiet_env\<lparr>capset_error := (\<lambda>h c. if h = [LockOSThread] then None else Some (External ''capset: operation not permitted''))\<rparr>"
  let ?w5 = "w0\<lparr>effective := 5\<rparr>"
  let ?caps = "push_bit CAP_SYS_ADMIN 1 :: 64 word"
  let ?t3 = "[LockOSThread, CapSet ?caps, Unmount ''/c'' MNT_DETACH, Unmount ''/b'' MNT_DETACH]"
  let ?t3' = "[LockOSThread, CapSet ?caps, Unmount ''/c'' MNT_DETACH, Unmount ''/b'' MNT_DETACH, Unmount ''/a'' MNT_DETACH]"
  let ?fatal = "Returned (WhileUnmounting ''/b'' (Errno EPERM))"
  let ?denied = "External ''capset: operation not permitted''"
  have h1: "capset_error ?E1 (trace w0 @ [LockOSThread]) ?caps = Some ?denied"
    by code_simp
  have h2: "SetProcessEffective (eperm_env ''/b'') ?caps (emit LockOSThread ?w5) =
        (5, None, \<lparr>effective = ?caps, trace = [LockOSThread, CapSet ?caps]\<rparr>) \<and>
      umount_loop (eperm_env ''/b'') abc (if True then MNT_DETACH else 0) (length abc) None
          \<lparr>effective = ?caps, trace = [LockOSThread, CapSet ?caps]\<rparr> =
        (?fatal, \<lparr>effective = ?caps, trace = ?t3\<rparr>) \<and>
      SetProcessEffective (eperm_env ''/b'') 5 \<lparr>effective = ?caps, trace = ?t3\<rparr> =
        (?caps, None, \<lparr>effective = 5, trace = ?t3 @ [CapSet 5]\<rparr>)"
    by code_simp
  have h3: "SetProcessEffective ?E3 ?caps (emit LockOSThread w0) =
        (0, None, \<lparr>effective = ?caps, trace = [LockOSThread, CapSet ?caps]\<rparr>) \<and>
      umount_loop ?E3 abc (if True then MNT_DETACH else 0) (length abc) None
          \<lparr>effective = ?caps, trace = [LockOSThread, CapSet ?caps]\<rparr> =
        (Continue None, \<lparr>effective = ?caps, trace = ?t3'\<rparr>) \<and>
      SetProcessEffective ?E3 0 \<lparr>effective = ?caps, trace = ?t3'\<rparr> =
        (0, Some ?denied, \<lparr>effective = ?caps, trace = ?t3' @ [CapSet 0]\<rparr>)"
    by code_simp
  have h4: "SetProcessEffective restore_fails_env ?caps (emit LockOSThread w0) =
        (0, None, \<lparr>effective = ?caps, trace = [LockOSThread, CapSet ?caps]\<rparr>) \<and>
      umount_loop restore_fails_env abc (if True then MNT_DETACH else 0) (length abc) None
          \<lparr>effective = ?caps, trace = [LockOSThread, CapSet ?caps]\<rparr> =
        (?fatal, \<lparr>effective = ?caps, trace = ?t3\<rparr>) \<and>
      SetProcessEffective restore_fails_env 0 \<lparr>effective = ?caps, trace = ?t3\<rparr> =
        (0, Some ?denied, \<lparr>effective = ?caps, trace = ?t3 @ [CapSet 0]\<rparr>)"
    by code_simp
  from umount_restores_effective [of ?E1 w0 ?denied abc True] h1
  have c1: "umount ?E1 abc True w0 =
     (Some ?denied, w0\<lparr>trace := trace w0 @ [LockOSThread, CapSet ?caps, UnlockOSThread]\<rparr>)"
    by blast
  from umount_restores_effective [of "eperm_env ''/b''" ?w5 _ abc True 5
      "\<lparr>effective = ?caps, trace = [LockOSThread, CapSet ?caps]\<rparr>"
      ?fatal "\<lparr>effective = ?caps, trace = ?t3\<rparr>"
      ?caps None "\<lparr>effective = 5, trace = ?t3 @ [CapSet 5]\<rparr>"] h2
  have c2: "effective (snd (umount (eperm_env ''/b'') abc True ?w5)) = effective ?w5"
    and c2': "fst (umount (eperm_env ''/b'') abc True ?w5) =
      (case ?fatal of Returned y \<Rightarrow> Some y | Continue None \<Rightarrow> None | Continue (Some y) \<Rightarrow> Some y)"
    by blast+
  from umount_restores_effective [of ?E3 w0 _ abc True 0
      "\<lparr>effective = ?caps, trace = [LockOSThread, CapSet ?caps]\<rparr>"
      "Continue None" "\<lparr>effective = ?caps, trace = ?t3'\<rparr>"
      0 "Some ?denied" "\<lparr>effective = ?caps, trace = ?t3' @ [CapSet 0]\<rparr>"] h3
  have c3: "fst (umount ?E3 abc True w0) =
      (case Continue None of Returned y \<Rightarrow> Some y | Continue None \<Rightarrow> Some ?denied | Continue (Some y) \<Rightarrow> Some y)"
    by blast
  from umount_restores_effective [of restore_fails_env w0 _ abc True 0
      "\<lparr>effective = ?caps, trace = [LockOSThread, CapSet ?caps]\<rparr>"
      ?fatal "\<lparr>effective = ?caps, trace = ?t3\<rparr>"
      0 "Some ?denied" "\<lparr>effective = ?caps, trace = ?t3 @ [CapSet 0]\<rparr>"] h4
  have c4: "fst (umount restore_fails_env abc True w0) =
      (case ?fatal of Returned y \<Rightarrow> Some y | Continue None \<Rightarrow> Some ?denied | Continue (Some y) \<Rightarrow> Some y)"
    and c4': "effective (snd (umount restore_fails_env abc True w0)) = ?caps"
    by blast+
  from c1 c2 c2' c3 c4 c4' show ?thesis by simp
qed

text \<open>
  C9 as stated has a failure to restore propagated to the caller.  When
  unmounting \<^verbatim>\<open>/b\<close> fails with \<^verbatim>\<open>EPERM\<close> and the restore then fails too, the caller
  gets the unmount error, not the restore error, and the effective set is not
  the snapshot.
\<close>

theorem umount_restore_dropped_counterexample:
  "\<not> (capset_error restore_fails_env
         [LockOSThread, CapSet (push_bit CAP_SYS_ADMIN 1), Unmount ''/c'' MNT_DETACH,
          Unmount ''/b'' MNT_DETACH] (effective w0) =
         Some (External ''capset: operation not permitted'') \<longrightarrow>
       fst (umount restore_fails_env abc True w0) = Some (External ''capset: operation not permitted'') \<or>
       effective (snd (umount restore_fails_env abc True w0)) = effective w0)"
  by code_simp

subsection \<open>A fatal failure ends the traversal\<close>

lemma umount_loop_reach:
  assumes i: "i < length pts"
    and reach: "umount_loop E (drop (Suc i) pts) f (length pts - Suc i) err0 w = (Continue err, w1)"
  shows "umount_loop E pts f (length pts) err0 w = umount_loop E pts f (Suc i) err w1"
proof -
  let ?pre = "take (Suc i) pts" and ?xs = "drop (Suc i) pts"
  have len: "length ?pre = Suc i" "length ?xs = length pts - Suc i" using i by simp_all
  have sum: "Suc i + (length pts - Suc i) = length pts" using i by simp
  have "umount_loop E (?pre @ ?xs) f (length ?pre + length ?xs) err0 w =
      (case umount_loop E ?xs f (length ?xs) err0 w of
        (Returned e, w') \<Rightarrow> (Returned e, w')
      | (Continue err', w') \<Rightarrow> umount_loop E (?pre @ ?xs) f (length ?pre) err' w')"
    by (rule umount_loop_append) simp
  then have "umount_loop E pts f (Suc i + (length pts - Suc i)) err0 w =
      (case umount_loop E ?xs f (length pts - Suc i) err0 w of
        (Returned e, w') \<Rightarrow> (Returned e, w')
      | (Continue err', w') \<Rightarrow> umount_loop E pts f (Suc i) err' w')"
    unfolding append_take_drop_id len .
  then show ?thesis
    unfolding sum reach by simp
qed

text \<open>
  An errno other than \<^verbatim>\<open>EINVAL\<close> and \<^verbatim>\<open>EBUSY\<close>, or \<^verbatim>\<open>EBUSY\<close> on the eleventh attempt,
  makes the loop body leave \<^verbatim>\<open>umount\<close> with the wrapped error, right after the
  attempt that was answered so.
\<close>

lemma unmount_point_fatal:
  assumes k: "k \<le> 10" and busy: "busy_times E p f w k"
    and ans: "answer E p f w k = Some n" and n: "n \<noteq> EINVAL" "n = EBUSY \<longrightarrow> k = 10"
  shows "unmount_point E p f 0 w = (Returned (WhileUnmounting p (Errno n)), attempts p f w (Suc k))"
proof -
  have "unmount_point E p f 0 w = unmount_point E p f k (attempts p f w k)"
    using unmount_point_busy [of 0 k E p f w] k busy by simp
  also have "\<dots> = (Returned (WhileUnmounting p (Errno n)), emit (Unmount p f) (attempts p f w k))"
    using ans n by (subst unmount_point.simps) (auto simp: syscall_Unmount_def answer_def)
  also have "emit (Unmount p f) (attempts p f w k) = attempts p f w (Suc k)"
    by (simp add: attempts_def emit_def replicate_append_same)
  finally show ?thesis .
qed

text \<open>
  C10.  From any state \<open>ws\<close>, with the capability raised: let the points
  registered after index \<open>i\<close> be unmounted without a fatal error, leaving state
  \<open>w1\<close>, and let the kernel then answer the attempts on the point at index \<open>i\<close>
  with \<^verbatim>\<open>EBUSY\<close> \<open>k\<close> times (\<open>k\<close> at most 10, possibly 0) and then with an errno \<open>n\<close>
  that is not \<^verbatim>\<open>EINVAL\<close> and is either not \<^verbatim>\<open>EBUSY\<close> or the eleventh \<^verbatim>\<open>EBUSY\<close>.  Then
  the loop returns the error wrapping \<open>n\<close> for that point right after that
  attempt, \<^verbatim>\<open>umount\<close> returns that error, and the calls of \<^verbatim>\<open>umount\<close> after state \<open>w1\<close>
  are the \<open>k + 1\<close> attempts on point \<open>i\<close>, the restore of the capabilities and
  the thread unlock: no point registered before index \<open>i\<close> is touched.
\<close>

theorem umount_fatal_stops:
  assumes i: "i < length pts"
    and raise: "SetProcessEffective E (push_bit CAP_SYS_ADMIN 1) (emit LockOSThread ws) = (old, None, w)"
    and reach: "umount_loop E (drop (Suc i) pts) (if lazy then MNT_DETACH else 0) (length pts - Suc i) None w
                  = (Continue err, w1)"
    and k: "k \<le> 10"
    and busy: "busy_times E (pts ! i) (if lazy then MNT_DETACH else 0) w1 k"
    and ans: "answer E (pts ! i) (if lazy then MNT_DETACH else 0) w1 k = Some n"
    and n: "n \<noteq> EINVAL" "n = EBUSY \<longrightarrow> k = 10"
  shows "umount_loop E pts (if lazy then MNT_DETACH else 0) (length pts) None w =
           (Returned (WhileUnmounting (pts ! i) (Errno n)),
            attempts (pts ! i) (if lazy then MNT_DETACH else 0) w1 (Suc k)) \<and>
         fst (umount E pts lazy ws) = Some (WhileUnmounting (pts ! i) (Errno n)) \<and>
         trace (snd (umount E pts lazy ws)) =
           trace w1 @ replicate (Suc k) (Unmount (pts ! i) (if lazy then MNT_DETACH else 0)) @
           [CapSet old, UnlockOSThread]"
proof -
  let ?f = "if lazy then MNT_DETACH else 0"
  let ?e = "WhileUnmounting (pts ! i) (Errno n)"
  let ?w2 = "attempts (pts ! i) ?f w1 (Suc k)"
  have fail: "unmount_point E (pts ! i) ?f 0 w1 = (Returned ?e, ?w2)"
    using k busy ans n by (rule unmount_point_fatal)
  have loop: "umount_loop E pts ?f (length pts) None w = (Returned ?e, ?w2)"
    using umount_loop_reach [OF i reach] fail by simp
  have um: "umount E pts lazy ws = (Some ?e, emit UnlockOSThread (snd (snd (SetProcessEffective E old ?w2))))"
    using raise loop by (simp add: umount_def Let_def split: prod.splits)
  have tr: "trace (snd (snd (SetProcessEffective E old ?w2))) = trace ?w2 @ [CapSet old]"
    by (simp add: SetProcessEffective_def emit_def split: option.splits)
  have t2: "trace ?w2 = trace w1 @ replicate (Suc k) (Unmount (pts ! i) ?f)"
    by (simp add: attempts_def)
  show ?thesis
    using loop um tr t2 by (simp add: emit_def)
qed

theorem umount_fatal_stops_witness:
  "fst (umount (eperm_env ''/b'') abc False (w0\<lparr>trace := [StopFuseDrivers]\<rparr>)) =
     Some (WhileUnmounting ''/b'' (Errno EPERM)) \<and>
   trace (snd (umount (eperm_env ''/b'') abc False (w0\<lparr>trace := [StopFuseDrivers]\<rparr>))) =
     [StopFuseDrivers, LockOSThread, CapSet (push_bit CAP_SYS_ADMIN 1), Unmount ''/c'' 0, Unmount ''/b'' 0,
      CapSet 0, UnlockOSThread] \<and>
   fst (umount (busy_env 11) [''/mnt''] False w0) = Some (WhileUnmounting ''/mnt'' (Errno EBUSY)) \<and>
   trace (snd (umount (busy_env 11) [''/mnt''] False w0)) =
     [LockOSThread, CapSet (push_bit CAP_SYS_ADMIN 1)] @ replicate 11 (Unmount ''/mnt'' 0) @
     [CapSet 0, UnlockOSThread]"
proof -
  let ?caps = "push_bit CAP_SYS_ADMIN 1 :: 64 word"
  let ?ws = "w0\<lparr>trace := [StopFuseDrivers]\<rparr>"
  let ?w = "\<lparr>effective = ?caps, trace = [StopFuseDrivers, LockOSThread, CapSet ?caps]\<rparr>"
  let ?w1 = "\<lparr>effective = ?caps, trace = [StopFuseDrivers, LockOSThread, CapSet ?caps, Unmount ''/c'' 0]\<rparr>"
  let ?v = "\<lparr>effective = ?caps, trace = [LockOSThread, CapSet ?caps]\<rparr>"
  have i: "1 < length abc" by code_simp
  have raise: "SetProcessEffective (eperm_env ''/b'') ?caps (emit LockOSThread ?ws) = (0, None, ?w)"
    by code_simp
  have reach: "umount_loop (eperm_env ''/b'') (drop (Suc 1) abc) (if False then MNT_DETACH else 0)
      (length abc - Suc 1) None ?w = (Continue None, ?w1)"
    by code_simp
  have k: "(0::nat) \<le> 10" by simp
  have busy: "busy_times (eperm_env ''/b'') (abc ! 1) (if False then MNT_DETACH else 0) ?w1 0"
    by code_simp
  have ans: "answer (eperm_env ''/b'') (abc ! 1) (if False then MNT_DETACH else 0) ?w1 0 = Some EPERM"
    by code_simp
  have n: "EPERM \<noteq> EINVAL" "EPERM = EBUSY \<longrightarrow> (0::nat) = 10"
    by code_simp+
  have j: "0 < length [''/mnt'']" by simp
  have raise': "SetProcessEffective (busy_env 11) ?caps (emit LockOSThread w0) = (0, None, ?v)"
    by code_simp
  have reach': "umount_loop (busy_env 11) (drop (Suc 0) [''/mnt'']) (if False then MNT_DETACH else 0)
      (length [''/mnt''] - Suc 0) None ?v = (Continue None, ?v)"
    by code_simp
  have k': "(10::nat) \<le> 10" by simp
  have busy': "busy_times (busy_env 11) ([''/mnt''] ! 0) (if False then MNT_DETACH else 0) ?v 10"
    by code_simp
  have ans': "answer (busy_env 11) ([''/mnt''] ! 0) (if False then MNT_DETACH else 0) ?v 10 = Some EBUSY"
    by code_simp
  have n': "EBUSY \<noteq> EINVAL" "EBUSY = EBUSY \<longrightarrow> (10::nat) = 10"
    by code_simp+
  have b: "abc ! Suc 0 = ''/b''" by (simp add: abc_def)
  from umount_fatal_stops [OF i raise reach k busy ans n]
       umount_fatal_stops [OF j raise' reach' k' busy' ans' n']
  show ?thesis
    by (simp add: b)
qed

section \<open>Properties of CleanupContainer\<close>

subsection \<open>The calls of each step\<close>





































subsection \<open>Every step runs; failures are logged; only the instance file error is returned\<close>



text \<open>The whole run behind the witness above.\<close>

lemma CleanupContainer_sample_run:
  "trace (snd (CleanupContainer failing_env cfg1 G1 w0)) =
     [StopFuseDrivers, RemoveAll ''/tmp/img'',
      Sylog ErrorLvl ''failed to delete container image tempDir %s: %s'' [''/tmp/img''] (External ''permission denied''),
      Escalate, DelNetworks,
      Sylog ErrorLvl ''could not delete networks: %v'' [] (External ''network is down''),
      Drop, CgroupDestroy,
      Sylog WarningLvl ''failed to remove cgroup configuration: %v'' [] (External ''cgroup busy''),
      LockOSThread, CapSet (push_bit CAP_SYS_ADMIN 1), Unmount ''/mnt'' 0, CapSet 0, UnlockOSThread,
      CloseCryptDevice ''crypt0'',
      Sylog ErrorLvl ''could not cleanup crypt: %v'' [] (UnableToDeleteCryptDevice ''crypt0''),
      InstanceGet ''inst1'', InstanceDelete ''inst1'']"
  by code_simp

subsection \<open>Removal of the temporary image directory\<close>




section \<open>Properties of startup\<close>





section \<open>Properties of the overlay wrappers\<close>

subsection \<open>More than one writable overlay\<close>

lemma writable_desc_is_writable: "writable_desc p \<Longrightarrow> is_writable p"
proof (rule ccontr)
  assume w: "writable_desc p" and n: "\<not> is_writable p"
  from n have c: "CHR '':'' \<in> set p" and ro: "tl (dropWhile (\<lambda>c. c \<noteq> CHR '':'') p) = ''ro''"
    by (auto simp: is_writable_def SplitN2_def split: if_splits)
  from c have "dropWhile (\<lambda>c. c \<noteq> CHR '':'') p \<noteq> []" by simp
  moreover from c have "hd (dropWhile (\<lambda>c. c \<noteq> CHR '':'') p) = CHR '':''"
    using hd_dropWhile [of "\<lambda>c. c \<noteq> CHR '':''" p] by auto
  ultimately have "dropWhile (\<lambda>c. c \<noteq> CHR '':'') p = '':ro''"
    using ro by (cases "dropWhile (\<lambda>c. c \<noteq> CHR '':'') p") auto
  then have "p = takeWhile (\<lambda>c. c \<noteq> CHR '':'') p @ '':ro''"
    using takeWhile_dropWhile_id [of "\<lambda>c. c \<noteq> CHR '':''" p] by simp
  then have "suffix '':ro'' p" by (metis suffixI)
  with w show False by (simp add: writable_desc_def)
qed

lemma parse_overlays_rejects:
  "2 \<le> (if found then 1 else 0) + length (filter is_writable ps) \<Longrightarrow>
   \<exists>loc bare. parse_overlays ps found ovs = Inl (MoreThanOneWritable loc bare)"
proof (induction ps arbitrary: found ovs)
  case Nil
  then show ?case by (simp split: if_splits)
next
  case (Cons p ps)
  show ?case
  proof (cases "is_writable p")
    case True
    show ?thesis
    proof (cases found)
      case True
      with \<open>is_writable p\<close> show ?thesis by (simp add: is_writable_def Let_def)
    next
      case False
      with Cons.prems \<open>is_writable p\<close> have "2 \<le> (if True then 1 else 0) + length (filter is_writable ps)"
        by simp
      from Cons.IH [OF this] False \<open>is_writable p\<close> show ?thesis
        by (simp add: is_writable_def Let_def)
    qed
  next
    case False
    with Cons.prems have "2 \<le> (if found then 1 else 0) + length (filter is_writable ps)"
      by simp
    from Cons.IH [OF this] False show ?thesis
      by (simp add: is_writable_def Let_def)
  qed
qed

lemma filter_writable_desc_le:
  "length (filter writable_desc ps) \<le> length (filter is_writable ps)"
  by (induction ps) (auto dest: writable_desc_is_writable)

text \<open>
  C6.  If more than one description of the list is writable, in the reading of
  the code and so also in the reading "not suffixed \<^verbatim>\<open>:ro\<close>", \<^verbatim>\<open>WrapWithOverlays\<close>
  returns the error about a second writable overlay and leaves the state as it
  was: no overlay is applied and the payload is not run.
\<close>

theorem WrapWithOverlays_rejects_two_writable:
  "(1 < length (filter is_writable overlayPaths) \<longrightarrow>
      (\<exists>loc bare. WrapWithOverlays L f bundleDir overlayPaths t = (Some (MoreThanOneWritable loc bare), t))) \<and>
   (1 < length (filter writable_desc overlayPaths) \<longrightarrow>
      (\<exists>loc bare. WrapWithOverlays L f bundleDir overlayPaths t = (Some (MoreThanOneWritable loc bare), t)))"
proof -
  have a: "\<exists>loc bare. WrapWithOverlays L f bundleDir overlayPaths t = (Some (MoreThanOneWritable loc bare), t)"
    if "1 < length (filter is_writable overlayPaths)"
  proof -
    from that have "2 \<le> (if False then 1 else 0) + length (filter is_writable overlayPaths)" by simp
    from parse_overlays_rejects [OF this, of "\<lparr>WritableLoc = [], ReadonlyLocs = []\<rparr>"]
    show ?thesis by (auto simp: WrapWithOverlays_def)
  qed
  moreover have "1 < length (filter is_writable overlayPaths)"
    if "1 < length (filter writable_desc overlayPaths)"
    using that filter_writable_desc_le [of overlayPaths] by simp
  ultimately show ?thesis by blast
qed

theorem WrapWithOverlays_rejects_two_writable_witness:
  "1 < length (filter is_writable [''/lower:ro'', ''/upper1'', ''/upper2:rw'']) \<and>
   1 < length (filter writable_desc [''/lower:ro'', ''/upper1'', ''/upper2:rw'']) \<and>
   WrapWithOverlays oci_ok exit_3 ''/bundle'' [''/lower:ro'', ''/upper1'', ''/upper2:rw''] [] =
     (Some (MoreThanOneWritable ''/upper1'' ''/upper2''), [])"
proof -
  have h: "1 < length (filter is_writable [''/lower:ro'', ''/upper1'', ''/upper2:rw'']) \<and>
   1 < length (filter writable_desc [''/lower:ro'', ''/upper1'', ''/upper2:rw''])"
    by code_simp
  have v: "fst (WrapWithOverlays oci_ok exit_3 ''/bundle'' [''/lower:ro'', ''/upper1'', ''/upper2:rw''] []) =
     Some (MoreThanOneWritable ''/upper1'' ''/upper2'')"
    by code_simp
  from WrapWithOverlays_rejects_two_writable
    [of "[''/lower:ro'', ''/upper1'', ''/upper2:rw'']" oci_ok exit_3 "''/bundle''" "[]"] h v
  show ?thesis by auto
qed

subsection \<open>Cleanup after the payload\<close>

text \<open>
  C4.  For every payload \<open>f\<close> and every outcome \<open>err\<close> of it: once the preparation
  has succeeded, each wrapper returns exactly \<open>err\<close>, and what follows the
  payload's own calls is the cleanup call and, when that call fails, one log
  line; the cleanup error is not returned.
\<close>

theorem Wrap_cleanup_and_result:
  "(prepareWritableTmpfs L bundleDir t = (Inr overlayDir, t1) \<and> f t1 = (err, t2) \<longrightarrow>
      WrapWithWritableTmpFs L f bundleDir t =
        (err, t2 @ DeleteOverlayTmpfs bundleDir overlayDir #
              cleanup_log L ''While cleaning up writable tmpfs: %v''
                (DeleteOverlayTmpfs bundleDir overlayDir) t2)) \<and>
   (parse_overlays overlayPaths False \<lparr>WritableLoc = [], ReadonlyLocs = []\<rparr> = Inr ovs \<and>
    oci_ext L (ApplyOverlay (RootFsPath L bundleDir) ovs) t = (None, t1) \<and> f t1 = (err, t2) \<longrightarrow>
      WrapWithOverlays L f bundleDir overlayPaths t =
        (err, t2 @ UnmountOverlay (RootFsPath L bundleDir) #
              cleanup_log L ''While unmounting rootfs overlay: %v''
                (UnmountOverlay (RootFsPath L bundleDir)) t2))"
  by (auto simp: WrapWithWritableTmpFs_def WrapWithOverlays_def cleanupWritableTmpfs_def oci_ext_def
      log_cleanup_def cleanup_log_def Let_def split: option.splits)

theorem Wrap_cleanup_and_result_witness:
  "WrapWithWritableTmpFs cleanup_fails exit_3 ''/bundle'' [] =
     (Some (External ''exit status 3''),
      [GetCurrentConfig, CreateOverlayTmpfs ''/bundle'' 64,
       DeleteOverlayTmpfs ''/bundle'' ''/bundle/overlay'',
       Errorf ''While cleaning up writable tmpfs: %v'' (External ''device or resource busy'')]) \<and>
   WrapWithOverlays cleanup_fails exit_3 ''/bundle'' [''/lower:ro'', ''/upper''] [] =
     (Some (External ''exit status 3''),
      [ApplyOverlay ''/bundle/rootfs'' \<lparr>WritableLoc = ''/upper'', ReadonlyLocs = [''/lower'']\<rparr>,
       UnmountOverlay ''/bundle/rootfs'',
       Errorf ''While unmounting rootfs overlay: %v'' (External ''device or resource busy'')])"
proof -
  let ?t1 = "[GetCurrentConfig, CreateOverlayTmpfs ''/bundle'' 64]"
  let ?ovs = "\<lparr>WritableLoc = ''/upper'', ReadonlyLocs = [''/lower'']\<rparr>"
  have h1: "prepareWritableTmpfs cleanup_fails ''/bundle'' [] = (Inr ''/bundle/overlay'', ?t1) \<and>
      exit_3 ?t1 = (Some (External ''exit status 3''), ?t1)"
    by code_simp
  have h2: "parse_overlays [''/lower:ro'', ''/upper''] False \<lparr>WritableLoc = [], ReadonlyLocs = []\<rparr> = Inr ?ovs \<and>
      oci_ext cleanup_fails (ApplyOverlay (RootFsPath cleanup_fails ''/bundle'') ?ovs) [] =
        (None, [ApplyOverlay ''/bundle/rootfs'' ?ovs]) \<and>
      exit_3 [ApplyOverlay ''/bundle/rootfs'' ?ovs] =
        (Some (External ''exit status 3''), [ApplyOverlay ''/bundle/rootfs'' ?ovs])"
    by code_simp
  have v1: "?t1 @ DeleteOverlayTmpfs ''/bundle'' ''/bundle/overlay'' #
        cleanup_log cleanup_fails ''While cleaning up writable tmpfs: %v''
          (DeleteOverlayTmpfs ''/bundle'' ''/bundle/overlay'') ?t1 =
      [GetCurrentConfig, CreateOverlayTmpfs ''/bundle'' 64,
       DeleteOverlayTmpfs ''/bundle'' ''/bundle/overlay'',
       Errorf ''While cleaning up writable tmpfs: %v'' (External ''device or resource busy'')]"
    by code_simp
  have v2: "[ApplyOverlay ''/bundle/rootfs'' ?ovs] @ UnmountOverlay (RootFsPath cleanup_fails ''/bundle'') #
        cleanup_log cleanup_fails ''While unmounting rootfs overlay: %v''
          (UnmountOverlay (RootFsPath cleanup_fails ''/bundle'')) [ApplyOverlay ''/bundle/rootfs'' ?ovs] =
      [ApplyOverlay ''/bundle/rootfs'' ?ovs, UnmountOverlay ''/bundle/rootfs'',
       Errorf ''While unmounting rootfs overlay: %v'' (External ''device or resource busy'')]"
    by code_simp
  from Wrap_cleanup_and_result [of cleanup_fails "''/bundle''" "[]" "''/bundle/overlay''" ?t1 exit_3
      "Some (External ''exit status 3'')" ?t1] h1 v1
  have c1: "WrapWithWritableTmpFs cleanup_fails exit_3 ''/bundle'' [] =
     (Some (External ''exit status 3''),
      [GetCurrentConfig, CreateOverlayTmpfs ''/bundle'' 64,
       DeleteOverlayTmpfs ''/bundle'' ''/bundle/overlay'',
       Errorf ''While cleaning up writable tmpfs: %v'' (External ''device or resource busy'')])"
    by metis
  from Wrap_cleanup_and_result [of cleanup_fails "''/bundle''" "[]" _ "[ApplyOverlay ''/bundle/rootfs'' ?ovs]" exit_3
      "Some (External ''exit status 3'')" "[ApplyOverlay ''/bundle/rootfs'' ?ovs]"
      "[''/lower:ro'', ''/upper'']" ?ovs] h2 v2
  have c2: "WrapWithOverlays cleanup_fails exit_3 ''/bundle'' [''/lower:ro'', ''/upper''] [] =
     (Some (External ''exit status 3''),
      [ApplyOverlay ''/bundle/rootfs'' ?ovs, UnmountOverlay ''/bundle/rootfs'',
       Errorf ''While unmounting rootfs overlay: %v'' (External ''device or resource busy'')])"
    by metis
  from c1 c2 show ?thesis by simp
qed

section \<open>Properties of overlay sets\<close>

lemma first_duplicate_None: "first_duplicate ps = None \<longleftrightarrow> distinct ps"
  by (induction ps) auto

text \<open>
  C5.  If two different entries of an overlay set, read-only or writable, have
  the same resolved source path, \<^verbatim>\<open>Set.Mount\<close> returns an error and the list of
  mount calls is unchanged.
\<close>

theorem Set_Mount_rejects_duplicates:
  "i < length (set_items s) \<Longrightarrow> j < length (set_items s) \<Longrightarrow> i \<noteq> j \<Longrightarrow>
   SourcePath (set_items s ! i) = SourcePath (set_items s ! j) \<Longrightarrow>
   fst (Set_Mount M s rootfsDir t) \<noteq> None \<and> snd (Set_Mount M s rootfsDir t) = t"
proof -
  assume a: "i < length (set_items s)" "j < length (set_items s)" "i \<noteq> j"
    "SourcePath (set_items s ! i) = SourcePath (set_items s ! j)"
  have "\<not> distinct (map SourcePath (set_items s))"
  proof
    assume "distinct (map SourcePath (set_items s))"
    with a(1,2,4) have "i = j" by (auto simp: distinct_conv_nth)
    with a(3) show False by simp
  qed
  then obtain p where "first_duplicate (map SourcePath (set_items s)) = Some p"
    using first_duplicate_None [of "map SourcePath (set_items s)"] by (cases "first_duplicate (map SourcePath (set_items s))") auto
  then show ?thesis by (simp add: Set_Mount_def)
qed

theorem Set_Mount_rejects_duplicates_witness:
  "Set_Mount mounts_ok dup_set ''/rootfs'' [] = (Some (DuplicateOverlaySource ''/tmp/b''), []) \<and>
   Set_Mount mounts_ok (dup_set\<lparr>WritableOverlay := Some (rw_item ''/tmp/rw'')\<rparr>) ''/rootfs'' [] =
     (Some (DuplicateOverlaySource ''/tmp/b''), []) \<and>
   fst (Set_Mount mounts_ok \<lparr>ReadonlyOverlays = [ro_item ''/tmp/a''], WritableOverlay = Some (rw_item ''/tmp/a'')\<rparr> ''/rootfs'' []) \<noteq> None \<and>
   snd (Set_Mount mounts_ok \<lparr>ReadonlyOverlays = [ro_item ''/tmp/a''], WritableOverlay = Some (rw_item ''/tmp/a'')\<rparr> ''/rootfs'' []) = []"
proof -
  let ?s3 = "\<lparr>ReadonlyOverlays = [ro_item ''/tmp/a''], WritableOverlay = Some (rw_item ''/tmp/a'')\<rparr>"
  have h: "0 < length (set_items ?s3)" "1 < length (set_items ?s3)" "(0::nat) \<noteq> 1"
    "SourcePath (set_items ?s3 ! 0) = SourcePath (set_items ?s3 ! 1)"
    by code_simp+
  have v: "Set_Mount mounts_ok dup_set ''/rootfs'' [] = (Some (DuplicateOverlaySource ''/tmp/b''), [])"
    "Set_Mount mounts_ok (dup_set\<lparr>WritableOverlay := Some (rw_item ''/tmp/rw'')\<rparr>) ''/rootfs'' [] =
     (Some (DuplicateOverlaySource ''/tmp/b''), [])"
    by code_simp+
  from Set_Mount_rejects_duplicates [OF h, of mounts_ok "''/rootfs''" "[]"] v show ?thesis
    by simp
qed

end
